theory Spec2Isabelle
  imports Main "HOL-Library.Sublist"
begin

section \<open>Data model of TutorialGuide.tsx\<close>

text \<open>
  Modelled from the spec: \<open>TipPropsType\<close> is imported from \<open>../tooltips/ToolTip\<close>,
  whose declaration is not among the sources. The component reads three fields of it
  (lines 131, 132, 134): the two optional direction flags, each defaulted with
  \<open>|| false\<close>, and the content payload \<open>children\<close>, kept polymorphic.
\<close>

record 'c TipPropsType =
  isAboveElement :: "bool option"
  isRightJustified :: "bool option"
  children :: 'c

text \<open>\<open>StepInfoType\<close> (line 8): one descriptor of the step list.\<close>

record 'c StepInfoType =
  elementId :: string
  tipProps :: "'c TipPropsType"

text \<open>
  \<open>StepType\<close> (lines 33-36): the active step. Both fields are nullable in the source.
  Its second field is \<open>tipProps\<close> in the source as well; it carries a prime here because
  a record field name is a constant of the theory.
\<close>

record ('el, 'c) StepType =
  el :: "'el option"
  tipProps' :: "'c TipPropsType option"

text \<open>
  The rectangle \<open>getBoundingClientRect\<close> returns, over a number type \<open>'n\<close>, and the
  hole dimensions: four CSS length strings (lines 11, 46-51).
\<close>

record 'n DOMRect =
  rect_top :: 'n
  rect_left :: 'n
  rect_height :: 'n
  rect_width :: 'n

record HoleDims =
  hole_top :: string
  hole_left :: string
  hole_height :: string
  hole_width :: string

definition INITIAL_HOLE_DIMENSIONS :: HoleDims where
  "INITIAL_HOLE_DIMENSIONS =
     \<lparr>hole_top = ''-200vh'', hole_left = ''-200vw'', hole_height = ''0px'', hole_width = ''0px''\<rparr>"

text \<open>The three \<open>useState\<close> cells of the component (lines 31, 37, 38).\<close>

record ('el, 'c) state =
  remainingSteps :: "'c StepInfoType list"
  currentStep :: "('el, 'c) StepType"
  holeDims :: HoleDims

definition nullStep :: "('el, 'c) StepType" where
  "nullStep = \<lparr>el = None, tipProps' = None\<rparr>"

definition initial :: "'c StepInfoType list \<Rightarrow> ('el, 'c) state" where
  "initial highlightedSteps =
     \<lparr>remainingSteps = highlightedSteps, currentStep = nullStep,
      holeDims = INITIAL_HOLE_DIMENSIONS\<rparr>"

section \<open>Operations\<close>

text \<open>
  \<open>positionHole\<close> (lines 43-55). The layout \<open>getBoundingClientRect\<close> and the conversion
  of a number inside a template literal are the host's; they are parameters. The function
  returns the value it passes to \<open>setHoleDims\<close>.
\<close>

definition positionHole ::
  "('n \<Rightarrow> string) \<Rightarrow> ('el \<Rightarrow> 'n DOMRect) \<Rightarrow> 'el option \<Rightarrow> HoleDims" where
  "positionHole num_str getBoundingClientRect e =
     (case e of
        Some x \<Rightarrow>
          (let elDimensions = getBoundingClientRect x in
             \<lparr>hole_top = num_str (rect_top elDimensions) @ ''px'',
              hole_left = num_str (rect_left elDimensions) @ ''px'',
              hole_height = num_str (rect_height elDimensions) @ ''px'',
              hole_width = num_str (rect_width elDimensions) @ ''px''\<rparr>)
      | None \<Rightarrow> INITIAL_HOLE_DIMENSIONS)"

text \<open>
  The effect of lines 103-105 (and the observer callback of line 92) on its own: measure
  the element of \<open>currentStep\<close> and store the result. The \<open>currentStep\<close> it reads is the
  constant of the render the effect belongs to, so the state it is applied to is the
  state of that render; what \<open>goToNextVisibleStep\<close> promotes in the same pass is not seen
  by it (\<open>effectPass\<close> below).
\<close>

definition positionHoleEffect ::
  "('n \<Rightarrow> string) \<Rightarrow> ('el \<Rightarrow> 'n DOMRect) \<Rightarrow> ('el, 'c) state \<Rightarrow> ('el, 'c) state" where
  "positionHoleEffect num_str getBoundingClientRect s =
     s\<lparr>holeDims := positionHole num_str getBoundingClientRect (el (currentStep s))\<rparr>"

text \<open>
  The loop of lines 65-73: the first descriptor, in queue order, whose \<open>elementId\<close> the
  document resolves, with the element found; the \<open>break\<close> ends the scan there.
  \<open>getElementById\<close> is a parameter: the document at the moment of the call.
\<close>

fun firstVisible ::
  "(string \<Rightarrow> 'el option) \<Rightarrow> 'c StepInfoType list \<Rightarrow> ('el \<times> 'c StepInfoType) option" where
  "firstVisible getElementById [] = None"
| "firstVisible getElementById (stepInfo # rest) =
     (case getElementById (elementId stepInfo) of
        Some e \<Rightarrow> Some (e, stepInfo)
      | None \<Rightarrow> firstVisible getElementById rest)"

text \<open>
  \<open>goToNextVisibleStep\<close> (lines 63-75). The closure is rebuilt whenever
  \<open>remainingSteps\<close> or \<open>currentStep\<close> changes (dependency list, line 86), so the values
  it scans are those of the state, and the functional update of line 70 filters the very
  list that was scanned.
\<close>

definition goToNextVisibleStep ::
  "(string \<Rightarrow> 'el option) \<Rightarrow> ('el, 'c) state \<Rightarrow> ('el, 'c) state" where
  "goToNextVisibleStep getElementById s =
     (if el (currentStep s) = None then
        (case firstVisible getElementById (remainingSteps s) of
           Some (e, stepInfo) \<Rightarrow>
             s\<lparr>currentStep := \<lparr>el = Some e, tipProps' = Some (tipProps stepInfo)\<rparr>,
               remainingSteps :=
                 filter (\<lambda>step. elementId step \<noteq> elementId stepInfo) (remainingSteps s)\<rparr>
         | None \<Rightarrow> s)
      else s)"

text \<open>The descriptor a call of \<open>goToNextVisibleStep\<close> promotes, if any.\<close>

definition promoted ::
  "(string \<Rightarrow> 'el option) \<Rightarrow> ('el, 'c) state \<Rightarrow> 'c StepInfoType option" where
  "promoted getElementById s =
     (if el (currentStep s) = None then
        map_option snd (firstVisible getElementById (remainingSteps s))
      else None)"

text \<open>
  One pass of the effects of a render whose state is \<open>s\<close>: the passes after the mount
  and after every change of \<open>currentStep\<close> (dependency lists, lines 86 and 105), and
  likewise the two observer callbacks of one mutation (lines 80 and 92). Line 77 runs
  \<open>goToNextVisibleStep\<close> and line 104 runs \<open>positionHole (currentStep.el)\<close>; both read the
  constants of that render, so the element measured is the one of \<open>s\<close>, not the one the
  pass promotes. The writes of the pass land together.
\<close>

definition effectPass ::
  "('n \<Rightarrow> string) \<Rightarrow> (string \<Rightarrow> 'el option) \<Rightarrow> ('el \<Rightarrow> 'n DOMRect) \<Rightarrow>
     ('el, 'c) state \<Rightarrow> ('el, 'c) state" where
  "effectPass num_str getElementById getBoundingClientRect s =
     (goToNextVisibleStep getElementById s)
       \<lparr>holeDims := positionHole num_str getBoundingClientRect (el (currentStep s))\<rparr>"

text \<open>The two handlers of the dimming layer (lines 115, 116).\<close>

definition onClick :: "('el, 'c) state \<Rightarrow> ('el, 'c) state" where
  "onClick s = s\<lparr>currentStep := \<lparr>el = None, tipProps' = None\<rparr>\<rparr>"

definition onKeyDown :: "string \<Rightarrow> ('el, 'c) state \<Rightarrow> ('el, 'c) state" where
  "onKeyDown key s =
     (if key = ''Enter'' then s\<lparr>currentStep := \<lparr>el = None, tipProps' = None\<rparr>\<rparr> else s)"

text \<open>
  What the component returns (lines 107-142): \<open>null\<close>, or the dimming layer with the
  hole's style and the optional tooltip.
\<close>

record 'c ToolTip =
  tip_isAboveElement :: bool
  tip_isRightJustified :: bool
  tip_children :: 'c

record 'c Overlay =
  hole_style :: HoleDims
  tooltip :: "'c ToolTip option"

definition orFalse :: "bool option \<Rightarrow> bool" where
  "orFalse b = (case b of Some x \<Rightarrow> x | None \<Rightarrow> False)"

definition TutorialGuide :: "('el, 'c) state \<Rightarrow> 'c Overlay option" where
  "TutorialGuide s =
     (case el (currentStep s) of
        None \<Rightarrow> None
      | Some e \<Rightarrow>
          Some \<lparr>hole_style = holeDims s,
                tooltip =
                  (case tipProps' (currentStep s) of
                     Some t \<Rightarrow>
                       Some \<lparr>tip_isAboveElement = orFalse (isAboveElement t),
                             tip_isRightJustified = orFalse (isRightJustified t),
                             tip_children = children t\<rparr>
                   | None \<Rightarrow> None)\<rparr>)"

section \<open>Traces\<close>

text \<open>
  Everything that changes the state: a run of \<open>goToNextVisibleStep\<close> against the
  document of that moment, a click, a key press, a run of the measuring effect against
  the layout of that moment. An effect pass is the measuring effect followed by
  \<open>goToNextVisibleStep\<close>, both on the state of the render (\<open>effectPass_run\<close> below), so
  the traces of the component are among the traces here.
\<close>

datatype ('el, 'n) event =
    Advance "string \<Rightarrow> 'el option"
  | Click
  | KeyDown string
  | Measure "'el \<Rightarrow> 'n DOMRect"

fun step ::
  "('n \<Rightarrow> string) \<Rightarrow> ('el, 'c) state \<Rightarrow> ('el, 'n) event \<Rightarrow> ('el, 'c) state" where
  "step num_str s (Advance getElementById) = goToNextVisibleStep getElementById s"
| "step num_str s Click = onClick s"
| "step num_str s (KeyDown key) = onKeyDown key s"
| "step num_str s (Measure getBoundingClientRect) =
     positionHoleEffect num_str getBoundingClientRect s"

definition run ::
  "('n \<Rightarrow> string) \<Rightarrow> ('el, 'n) event list \<Rightarrow> ('el, 'c) state \<Rightarrow> ('el, 'c) state" where
  "run num_str evs s = foldl (step num_str) s evs"

text \<open>
  The descriptors promoted along a trace, in the order of their promotion.
\<close>

fun promotions ::
  "('n \<Rightarrow> string) \<Rightarrow> ('el, 'n) event list \<Rightarrow> ('el, 'c) state \<Rightarrow> 'c StepInfoType list" where
  "promotions num_str [] s = []"
| "promotions num_str (ev # evs) s =
     (case ev of
        Advance getElementById \<Rightarrow>
          (case promoted getElementById s of Some d \<Rightarrow> [d] | None \<Rightarrow> [])
      | _ \<Rightarrow> [])
     @ promotions num_str evs (step num_str s ev)"

text \<open>The invariant of the active step: no tip without an element.\<close>

definition tip_needs_el :: "('el, 'c) state \<Rightarrow> bool" where
  "tip_needs_el s = (el (currentStep s) \<noteq> None \<or> tipProps' (currentStep s) = None)"

section \<open>Sample inputs\<close>

text \<open>
  Concrete step lists, documents and layouts on which the theorems below are
  instantiated. Elements are numbered; lengths are natural numbers, printed in decimal.
\<close>

definition digit :: "nat \<Rightarrow> char" where
  "digit d =
     (if d = 0 then CHR ''0'' else if d = 1 then CHR ''1'' else if d = 2 then CHR ''2''
      else if d = 3 then CHR ''3'' else if d = 4 then CHR ''4'' else if d = 5 then CHR ''5''
      else if d = 6 then CHR ''6'' else if d = 7 then CHR ''7'' else if d = 8 then CHR ''8''
      else CHR ''9'')"

fun decimal :: "nat \<Rightarrow> string" where
  "decimal n = (if n < 10 then [digit n] else decimal (n div 10) @ [digit (n mod 10)])"

definition tipA :: "string TipPropsType" where
  "tipA = \<lparr>isAboveElement = Some True, isRightJustified = None, children = ''first''\<rparr>"

definition tipB :: "string TipPropsType" where
  "tipB = \<lparr>isAboveElement = None, isRightJustified = Some True, children = ''second''\<rparr>"

definition stepA :: "string StepInfoType" where
  "stepA = \<lparr>elementId = ''a'', tipProps = tipA\<rparr>"

definition stepB :: "string StepInfoType" where
  "stepB = \<lparr>elementId = ''b'', tipProps = tipB\<rparr>"

definition stepX1 :: "string StepInfoType" where
  "stepX1 = \<lparr>elementId = ''x'', tipProps = tipA\<rparr>"

definition stepX2 :: "string StepInfoType" where
  "stepX2 = \<lparr>elementId = ''x'', tipProps = tipB\<rparr>"

definition doc_empty :: "string \<Rightarrow> nat option" where
  "doc_empty i = None"

definition doc_only_b :: "string \<Rightarrow> nat option" where
  "doc_only_b i = (if i = ''b'' then Some 2 else None)"

definition doc_a_b :: "string \<Rightarrow> nat option" where
  "doc_a_b i = (if i = ''a'' then Some 1 else if i = ''b'' then Some 2 else None)"

definition doc_x :: "string \<Rightarrow> nat option" where
  "doc_x i = (if i = ''x'' then Some 7 else None)"

definition layout1 :: "nat \<Rightarrow> nat DOMRect" where
  "layout1 e = \<lparr>rect_top = 10 * e, rect_left = 5, rect_height = 30, rect_width = 120\<rparr>"

definition layout2 :: "nat \<Rightarrow> nat DOMRect" where
  "layout2 e = \<lparr>rect_top = 10 * e + 64, rect_left = 5, rect_height = 30, rect_width = 96\<rparr>"

lemmas sample_defs =
  digit_def tipA_def tipB_def stepA_def stepB_def stepX1_def stepX2_def
  doc_empty_def doc_only_b_def doc_a_b_def doc_x_def layout1_def layout2_def

lemmas op_defs =
  goToNextVisibleStep_def promoted_def onClick_def onKeyDown_def positionHoleEffect_def
  effectPass_def
  positionHole_def initial_def nullStep_def INITIAL_HOLE_DIMENSIONS_def run_def
  TutorialGuide_def orFalse_def

section \<open>Basic facts\<close>

lemma firstVisible_None:
  "firstVisible doc q = None \<longleftrightarrow> (\<forall>d \<in> set q. doc (elementId d) = None)"
  by (induction q) (auto split: option.splits)

lemma firstVisible_Some:
  "firstVisible doc q = Some (e, d) \<Longrightarrow>
     \<exists>pre post. q = pre @ d # post \<and> (\<forall>x \<in> set pre. doc (elementId x) = None)
       \<and> doc (elementId d) = Some e"
proof (induction q)
  case Nil
  then show ?case by simp
next
  case (Cons a q)
  show ?case
  proof (cases "doc (elementId a)")
    case None
    with Cons.prems have "firstVisible doc q = Some (e, d)" by simp
    from Cons.IH [OF this] obtain pre post where
      "q = pre @ d # post" "\<forall>x \<in> set pre. doc (elementId x) = None" "doc (elementId d) = Some e"
      by blast
    with None have "a # q = (a # pre) @ d # post \<and> (\<forall>x \<in> set (a # pre). doc (elementId x) = None)
        \<and> doc (elementId d) = Some e"
      by simp
    then show ?thesis by blast
  next
    case (Some x)
    with Cons.prems have "x = e" "a = d" by simp_all
    with Some have "a # q = [] @ d # q \<and> (\<forall>x \<in> set []. doc (elementId x) = None)
        \<and> doc (elementId d) = Some e"
      by simp
    then show ?thesis by blast
  qed
qed

lemma firstVisible_append:
  "\<forall>x \<in> set pre. doc (elementId x) = None \<Longrightarrow> doc (elementId d) = Some e \<Longrightarrow>
     firstVisible doc (pre @ d # post) = Some (e, d)"
  by (induction pre) auto

lemma firstVisible_mem:
  "firstVisible doc q = Some (e, d) \<Longrightarrow> d \<in> set q \<and> doc (elementId d) = Some e"
  by (induction q) (auto split: option.splits)

lemma promoted_firstVisible:
  "promoted doc s = Some d \<longleftrightarrow>
     el (currentStep s) = None \<and> (\<exists>e. firstVisible doc (remainingSteps s) = Some (e, d))"
  by (auto simp: promoted_def)

lemma promoted_mem: "promoted doc s = Some d \<Longrightarrow> d \<in> set (remainingSteps s)"
  by (auto simp: promoted_firstVisible dest: firstVisible_mem)

lemma run_Nil: "run ns [] s = s"
  by (simp add: run_def)

lemma run_snoc: "run ns (evs @ [ev]) s = step ns (run ns evs s) ev"
  by (simp add: run_def)

lemma run_append: "run ns (evs @ evs') s = run ns evs' (run ns evs s)"
  by (simp add: run_def)

lemma run_Cons: "run ns (ev # evs) s = run ns evs (step ns s ev)"
  by (simp add: run_def)

text \<open>Every event leaves the queue a filtering of what it was.\<close>

lemma goToNextVisibleStep_queue:
  "remainingSteps (goToNextVisibleStep doc s) = remainingSteps s \<or>
   (\<exists>d. d \<in> set (remainingSteps s) \<and>
      remainingSteps (goToNextVisibleStep doc s) =
        filter (\<lambda>step. elementId step \<noteq> elementId d) (remainingSteps s))"
  by (auto simp: goToNextVisibleStep_def split: option.splits dest: firstVisible_mem)

lemma step_queue:
  "remainingSteps (step ns s ev) = remainingSteps s \<or>
   (\<exists>x. remainingSteps (step ns s ev) =
      filter (\<lambda>step. elementId step \<noteq> x) (remainingSteps s))"
proof (cases ev)
  case (Advance doc)
  with goToNextVisibleStep_queue [of doc s] show ?thesis by auto
next
  case Click
  then show ?thesis by (simp add: onClick_def)
next
  case (KeyDown key)
  then show ?thesis by (simp add: onKeyDown_def)
next
  case (Measure layout)
  then show ?thesis by (simp add: positionHoleEffect_def)
qed

text \<open>
  Along a trace, the queue is the list it started from without the descriptors of a
  set of consumed target ids.
\<close>

lemma step_consumed:
  assumes "remainingSteps s = filter (\<lambda>d. elementId d \<notin> R) steps"
  shows "\<exists>R'. R \<subseteq> R' \<and> remainingSteps (step ns s ev) = filter (\<lambda>d. elementId d \<notin> R') steps"
proof -
  from step_queue [of ns s ev] show ?thesis
  proof
    assume "remainingSteps (step ns s ev) = remainingSteps s"
    with assms have "R \<subseteq> R \<and> remainingSteps (step ns s ev) = filter (\<lambda>d. elementId d \<notin> R) steps"
      by simp
    then show ?thesis by (rule exI [of _ R])
  next
    assume "\<exists>x. remainingSteps (step ns s ev) =
        filter (\<lambda>step. elementId step \<noteq> x) (remainingSteps s)"
    then obtain x where "remainingSteps (step ns s ev) =
        filter (\<lambda>step. elementId step \<noteq> x) (remainingSteps s)" ..
    with assms have "remainingSteps (step ns s ev) =
        filter (\<lambda>d. elementId d \<notin> insert x R) steps"
      by (simp add: conj_commute)
    then have "R \<subseteq> insert x R \<and> remainingSteps (step ns s ev) =
        filter (\<lambda>d. elementId d \<notin> insert x R) steps"
      by auto
    then show ?thesis by (rule exI [of _ "insert x R"])
  qed
qed

lemma run_consumed_from:
  assumes "remainingSteps s = filter (\<lambda>d. elementId d \<notin> R) steps"
  shows "\<exists>R'. R \<subseteq> R' \<and> remainingSteps (run ns evs s) = filter (\<lambda>d. elementId d \<notin> R') steps"
proof (induction evs rule: rev_induct)
  case Nil
  from assms have "R \<subseteq> R \<and> remainingSteps (run ns [] s) = filter (\<lambda>d. elementId d \<notin> R) steps"
    by (simp add: run_Nil)
  then show ?case by (rule exI [of _ R])
next
  case (snoc ev evs)
  then obtain R1 where R1: "R \<subseteq> R1"
    "remainingSteps (run ns evs s) = filter (\<lambda>d. elementId d \<notin> R1) steps"
    by blast
  from step_consumed [OF R1(2)] obtain R2 where
    "R1 \<subseteq> R2" "remainingSteps (step ns (run ns evs s) ev) = filter (\<lambda>d. elementId d \<notin> R2) steps"
    by blast
  with R1(1) have "R \<subseteq> R2 \<and> remainingSteps (run ns (evs @ [ev]) s)
      = filter (\<lambda>d. elementId d \<notin> R2) steps"
    by (auto simp: run_snoc)
  then show ?case by (rule exI [of _ R2])
qed

lemma run_consumed:
  "\<exists>R. remainingSteps (run ns evs (initial steps)) = filter (\<lambda>d. elementId d \<notin> R) steps"
proof -
  have "remainingSteps (initial steps) = filter (\<lambda>d. elementId d \<notin> {}) steps"
    by (simp add: initial_def)
  from run_consumed_from [OF this] show ?thesis by blast
qed

lemma run_queue:
  "\<exists>R. remainingSteps (run ns evs s) = filter (\<lambda>d. elementId d \<notin> R) (remainingSteps s)"
proof -
  have "remainingSteps s = filter (\<lambda>d. elementId d \<notin> {}) (remainingSteps s)"
    by simp
  from run_consumed_from [OF this] show ?thesis by blast
qed

lemma run_queue_length: "length (remainingSteps (run ns evs s)) \<le> length (remainingSteps s)"
proof -
  from run_queue obtain R where
    "remainingSteps (run ns evs s) = filter (\<lambda>d. elementId d \<notin> R) (remainingSteps s)" ..
  then show ?thesis by simp
qed

lemma run_queue_subset: "set (remainingSteps (run ns evs s)) \<subseteq> set (remainingSteps s)"
proof -
  from run_queue obtain R where
    "remainingSteps (run ns evs s) = filter (\<lambda>d. elementId d \<notin> R) (remainingSteps s)" ..
  then show ?thesis by auto
qed

lemma run_queue_subseq: "subseq (remainingSteps (run ns evs s)) (remainingSteps s)"
proof -
  from run_queue obtain R where
    "remainingSteps (run ns evs s) = filter (\<lambda>d. elementId d \<notin> R) (remainingSteps s)" ..
  then show ?thesis by simp
qed

text \<open>
  The first resolving descriptor of such a queue is the first descriptor of its target
  id in the whole step list.
\<close>

lemma firstVisible_first_occurrence:
  "firstVisible doc (filter (\<lambda>d. elementId d \<notin> R) steps) = Some (e, d) \<Longrightarrow>
     \<exists>pre post. steps = pre @ d # post \<and> (\<forall>x \<in> set pre. elementId x \<noteq> elementId d)"
proof (induction steps)
  case Nil
  then show ?case by simp
next
  case (Cons a steps)
  from firstVisible_mem [OF Cons.prems] have d: "elementId d \<notin> R" "doc (elementId d) = Some e"
    by (auto split: if_splits)
  show ?case
  proof (cases "elementId a \<notin> R \<and> doc (elementId a) \<noteq> None")
    case True
    with Cons.prems have "a = d" by auto
    then have "a # steps = [] @ d # steps \<and> (\<forall>x \<in> set []. elementId x \<noteq> elementId d)"
      by simp
    then show ?thesis by blast
  next
    case False
    with Cons.prems have "firstVisible doc (filter (\<lambda>d. elementId d \<notin> R) steps) = Some (e, d)"
      by (auto split: if_splits)
    from Cons.IH [OF this] obtain pre post where
      pp: "steps = pre @ d # post" "\<forall>x \<in> set pre. elementId x \<noteq> elementId d"
      by blast
    from False d have "elementId a \<noteq> elementId d" by auto
    with pp have "a # steps = (a # pre) @ d # post
        \<and> (\<forall>x \<in> set (a # pre). elementId x \<noteq> elementId d)"
      by simp
    then show ?thesis by blast
  qed
qed

text \<open>After a promotion, no descriptor of the promoted target id is left, for good.\<close>

lemma goToNextVisibleStep_promoted_gone:
  assumes "promoted doc s = Some d"
  shows "\<forall>x \<in> set (remainingSteps (goToNextVisibleStep doc s)). elementId x \<noteq> elementId d"
proof -
  from assms obtain e where "el (currentStep s) = None"
    "firstVisible doc (remainingSteps s) = Some (e, d)"
    by (auto simp: promoted_firstVisible)
  then show ?thesis by (simp add: goToNextVisibleStep_def)
qed

text \<open>Every event keeps the invariant of the active step.\<close>

lemma step_tip_needs_el: "tip_needs_el s \<Longrightarrow> tip_needs_el (step ns s ev)"
  by (cases ev)
    (auto simp: tip_needs_el_def goToNextVisibleStep_def onClick_def onKeyDown_def
      positionHoleEffect_def split: option.splits)

lemma run_tip_needs_el: "tip_needs_el s \<Longrightarrow> tip_needs_el (run ns evs s)"
  by (induction evs rule: rev_induct) (simp_all add: run_Nil run_snoc step_tip_needs_el)




lemma firstVisible_before:
  "firstVisible doc (xs @ a # rest) = Some (e, d) \<Longrightarrow> doc (elementId a) \<noteq> None \<Longrightarrow>
     d \<in> set (xs @ [a])"
  by (induction xs) (auto split: option.splits)




text \<open>An effect pass, as a trace and through what it writes.\<close>

lemma effectPass_run:
  "effectPass ns doc layout s = run ns [Measure layout, Advance doc] s"
  by (simp add: effectPass_def run_def positionHoleEffect_def goToNextVisibleStep_def
      split: option.splits)





section \<open>Claims\<close>




text \<open>
  C2. With no active step, \<open>goToNextVisibleStep\<close> promotes the first descriptor of the
  queue whose target resolves: the active step becomes the element found, paired with
  that descriptor's tip; the descriptor leaves the queue; every descriptor queued before
  it, none of which resolves, stays queued, in place.
\<close>

theorem advance_promotes_first_resolving:
  assumes "el (currentStep s) = None"
    and "remainingSteps s = pre @ d # post"
    and "\<forall>x \<in> set pre. getElementById (elementId x) = None"
    and "getElementById (elementId d) = Some e"
  shows "currentStep (goToNextVisibleStep getElementById s)
           = \<lparr>el = Some e, tipProps' = Some (tipProps d)\<rparr>
     \<and> remainingSteps (goToNextVisibleStep getElementById s)
           = pre @ filter (\<lambda>step. elementId step \<noteq> elementId d) post
     \<and> d \<notin> set (remainingSteps (goToNextVisibleStep getElementById s))
     \<and> set pre \<subseteq> set (remainingSteps (goToNextVisibleStep getElementById s))"
proof -
  from assms have fv: "firstVisible getElementById (remainingSteps s) = Some (e, d)"
    by (simp add: firstVisible_append)
  from assms(3,4) have "\<forall>x \<in> set pre. elementId x \<noteq> elementId d"
    by auto
  then have keep: "filter (\<lambda>step. elementId step \<noteq> elementId d) pre = pre"
    by (simp add: filter_id_conv)
  from fv assms(1) have cur: "currentStep (goToNextVisibleStep getElementById s)
           = \<lparr>el = Some e, tipProps' = Some (tipProps d)\<rparr>"
    by (simp add: goToNextVisibleStep_def)
  from fv assms(1,2) keep have q: "remainingSteps (goToNextVisibleStep getElementById s)
           = pre @ filter (\<lambda>step. elementId step \<noteq> elementId d) post"
    by (simp add: goToNextVisibleStep_def)
  from q \<open>\<forall>x \<in> set pre. elementId x \<noteq> elementId d\<close>
  have "d \<notin> set (remainingSteps (goToNextVisibleStep getElementById s))"
    by auto
  moreover from q have "set pre \<subseteq> set (remainingSteps (goToNextVisibleStep getElementById s))"
    by simp
  ultimately show ?thesis using cur q by blast
qed

text \<open>The spec's first scenario: steps \<open>[a, b]\<close>, only \<open>b\<close> attached.\<close>

theorem advance_promotes_first_resolving_witness:
  "el (currentStep (initial [stepA, stepB] :: (nat, string) state)) = None
   \<and> doc_only_b (elementId stepA) = None
   \<and> doc_only_b (elementId stepB) = Some 2
   \<and> currentStep (goToNextVisibleStep doc_only_b (initial [stepA, stepB]))
       = \<lparr>el = Some 2, tipProps' = Some tipB\<rparr>
   \<and> remainingSteps (goToNextVisibleStep doc_only_b (initial [stepA, stepB])) = [stepA]"
  using advance_promotes_first_resolving
    [where s = "initial [stepA, stepB]" and pre = "[stepA]" and d = stepB and post = "[]"
       and getElementById = doc_only_b and e = 2]
  by (simp add: op_defs sample_defs)

text \<open>
  C3. Along every trace the queue never grows; a descriptor that is not in the queue at
  some point of the trace is not in it at any later point, and no later run of
  \<open>goToNextVisibleStep\<close> promotes it.
\<close>

theorem monotonic_consumption:
  "length (remainingSteps (run ns (evs @ evs') s)) \<le> length (remainingSteps (run ns evs s))
   \<and> (d \<notin> set (remainingSteps (run ns evs s)) \<longrightarrow>
        d \<notin> set (remainingSteps (run ns (evs @ evs') s))
        \<and> promoted getElementById (run ns (evs @ evs') s) \<noteq> Some d)"
proof -
  have len: "length (remainingSteps (run ns (evs @ evs') s))
      \<le> length (remainingSteps (run ns evs s))"
    by (simp add: run_append run_queue_length)
  have sub: "set (remainingSteps (run ns (evs @ evs') s)) \<subseteq> set (remainingSteps (run ns evs s))"
    by (simp add: run_append run_queue_subset)
  {
    assume out: "d \<notin> set (remainingSteps (run ns evs s))"
    with sub have later: "d \<notin> set (remainingSteps (run ns (evs @ evs') s))"
      by blast
    then have "promoted getElementById (run ns (evs @ evs') s) \<noteq> Some d"
      using promoted_mem by blast
    with later have "d \<notin> set (remainingSteps (run ns (evs @ evs') s))
        \<and> promoted getElementById (run ns (evs @ evs') s) \<noteq> Some d"
      by simp
  }
  with len show ?thesis by blast
qed

text \<open>
  An instance: \<open>b\<close> is promoted first and has left the queue; after a click and a
  further run with both targets attached, \<open>b\<close> is still out and it is \<open>a\<close> that is
  promoted next.
\<close>

theorem monotonic_consumption_witness:
  "stepB \<notin> set (remainingSteps (run decimal [Advance doc_only_b] (initial [stepA, stepB])))
   \<and> stepB \<notin> set (remainingSteps
        (run decimal ([Advance doc_only_b] @ [Click, Advance doc_a_b]) (initial [stepA, stepB])))
   \<and> promoted doc_a_b (run decimal ([Advance doc_only_b] @ [Click]) (initial [stepA, stepB]))
        = Some stepA
   \<and> promoted doc_a_b
        (run decimal ([Advance doc_only_b] @ [Click, Advance doc_a_b]) (initial [stepA, stepB]))
        \<noteq> Some stepB"
  using monotonic_consumption
    [where ns = decimal and evs = "[Advance doc_only_b]" and evs' = "[Click, Advance doc_a_b]"
       and s = "initial [stepA, stepB]" and d = stepB and getElementById = doc_a_b]
  by (simp add: op_defs sample_defs)

text \<open>
  C4, as amended. Every trace leaves the queue a subsequence of the list it started
  from, so the descriptors still queued keep their relative order. A run of
  \<open>goToNextVisibleStep\<close> promotes the first queued descriptor that resolves at that
  moment: when a queued descriptor \<open>A\<close> resolves, the descriptor promoted is \<open>A\<close> or one
  queued before it, never one queued only after it. A later descriptor can still become
  active before an earlier one whose target is attached later.
\<close>

theorem order_preserved:
  "subseq (remainingSteps (run ns evs s)) (remainingSteps s)
   \<and> (remainingSteps s = xs @ A # rest \<and> getElementById (elementId A) \<noteq> None
        \<and> promoted getElementById s = Some d \<longrightarrow> d \<in> set (xs @ [A]))"
proof -
  {
    assume q: "remainingSteps s = xs @ A # rest"
      and a: "getElementById (elementId A) \<noteq> None"
      and p: "promoted getElementById s = Some d"
    from p obtain e where "firstVisible getElementById (remainingSteps s) = Some (e, d)"
      by (auto simp: promoted_firstVisible)
    with q a have "d \<in> set (xs @ [A])"
      using firstVisible_before [of getElementById xs A rest e d] by simp
  }
  then show ?thesis using run_queue_subseq [of ns evs s] by blast
qed

text \<open>
  An instance: after \<open>b\<close> has been promoted out of \<open>[a, b]\<close> the queue is \<open>[a]\<close>; and
  with both targets attached from the start, it is \<open>a\<close> that is promoted.
\<close>

theorem order_preserved_witness:
  "remainingSteps (run decimal [Advance doc_only_b] (initial [stepA, stepB])) = [stepA]
   \<and> subseq (remainingSteps (run decimal [Advance doc_only_b] (initial [stepA, stepB])))
        [stepA, stepB]
   \<and> doc_a_b (elementId stepA) = Some 1
   \<and> promoted doc_a_b (initial [stepA, stepB]) = Some stepA"
  using order_preserved
    [where ns = decimal and evs = "[Advance doc_only_b]" and s = "initial [stepA, stepB]"
       and xs = "[]" and A = stepA and rest = "[stepB]" and getElementById = doc_a_b
       and d = stepA]
  by (simp add: op_defs sample_defs)

text \<open>
  C4 as stated fails: \<open>a\<close> stands before \<open>b\<close> in the step list and both targets resolve
  in the end, yet \<open>b\<close>, attached first, becomes active before \<open>a\<close>.
\<close>

theorem later_step_active_first:
  "promotions decimal [Advance doc_only_b, Click, Advance doc_a_b] (initial [stepA, stepB])
     = [stepB, stepA]
   \<and> doc_a_b (elementId stepA) = Some 1
   \<and> doc_a_b (elementId stepB) = Some 2"
  by (simp add: op_defs sample_defs)



text \<open>
  C6. Along every trace from the initial state, a descriptor that
  \<open>goToNextVisibleStep\<close> promotes is the first one of its target id in the step list.
  Once it is promoted, no descriptor of that target id is left in the queue at any
  later point, and none is promoted by any later run.
\<close>

theorem duplicate_target_discarded:
  assumes "promoted getElementById (run ns evs (initial steps)) = Some d"
  shows "(\<exists>pre post. steps = pre @ d # post \<and> (\<forall>x \<in> set pre. elementId x \<noteq> elementId d))
     \<and> (\<forall>x \<in> set (remainingSteps
           (run ns (evs @ Advance getElementById # evs') (initial steps))).
          elementId x \<noteq> elementId d)
     \<and> (\<forall>d'. promoted doc'
           (run ns (evs @ Advance getElementById # evs') (initial steps)) = Some d'
          \<longrightarrow> elementId d' \<noteq> elementId d)"
proof -
  let ?s = "run ns evs (initial steps)"
  let ?t = "run ns (evs @ Advance getElementById # evs') (initial steps)"
  from run_consumed [of ns evs steps] obtain R where
    R: "remainingSteps ?s = filter (\<lambda>d. elementId d \<notin> R) steps" ..
  from assms obtain e where "firstVisible getElementById (remainingSteps ?s) = Some (e, d)"
    by (auto simp: promoted_firstVisible)
  with R have first:
    "\<exists>pre post. steps = pre @ d # post \<and> (\<forall>x \<in> set pre. elementId x \<noteq> elementId d)"
    using firstVisible_first_occurrence [of getElementById R steps e d] by simp
  have t: "?t = run ns evs' (goToNextVisibleStep getElementById ?s)"
    by (simp add: run_append run_Cons)
  have "set (remainingSteps ?t) \<subseteq> set (remainingSteps (goToNextVisibleStep getElementById ?s))"
    unfolding t by (rule run_queue_subset)
  with goToNextVisibleStep_promoted_gone [OF assms]
  have gone: "\<forall>x \<in> set (remainingSteps ?t). elementId x \<noteq> elementId d"
    by blast
  have "\<forall>d'. promoted doc' ?t = Some d' \<longrightarrow> elementId d' \<noteq> elementId d"
  proof (intro allI impI)
    fix d'
    assume "promoted doc' ?t = Some d'"
    then have "d' \<in> set (remainingSteps ?t)" by (rule promoted_mem)
    with gone show "elementId d' \<noteq> elementId d" by blast
  qed
  with first gone show ?thesis by blast
qed

text \<open>
  The spec's fifth scenario, with a step between the two descriptors of target \<open>x\<close>:
  the first is promoted, the second leaves the queue with it, and after a click a further
  run finds nothing of target \<open>x\<close> to promote.
\<close>

theorem duplicate_target_discarded_witness:
  "promoted doc_x (run decimal [] (initial [stepX1, stepA, stepX2])) = Some stepX1
   \<and> remainingSteps (run decimal ([] @ Advance doc_x # [Click]) (initial [stepX1, stepA, stepX2]))
       = [stepA]
   \<and> promoted doc_x (run decimal ([] @ Advance doc_x # [Click]) (initial [stepX1, stepA, stepX2]))
       = None"
  using duplicate_target_discarded
    [where getElementById = doc_x and ns = decimal and evs = "[]"
       and steps = "[stepX1, stepA, stepX2]" and d = stepX1 and evs' = "[Click]"
       and doc' = doc_x]
  by (simp add: op_defs sample_defs)

text \<open>
  C7. If \<open>goToNextVisibleStep\<close> runs and no descriptor of the queue resolves to an
  attached element (the empty queue included), the queue and the active step, indeed the
  whole state, are left exactly as they were. The function is total: the unresolved case
  returns a state like every other and raises nothing.
\<close>

theorem advance_unresolved_unchanged:
  assumes "\<forall>d \<in> set (remainingSteps s). getElementById (elementId d) = None"
  shows "goToNextVisibleStep getElementById s = s
     \<and> remainingSteps (goToNextVisibleStep getElementById s) = remainingSteps s
     \<and> currentStep (goToNextVisibleStep getElementById s) = currentStep s"
proof -
  from assms have "firstVisible getElementById (remainingSteps s) = None"
    by (simp add: firstVisible_None)
  then have "goToNextVisibleStep getElementById s = s"
    by (simp add: goToNextVisibleStep_def)
  then show ?thesis by simp
qed

text \<open>
  Instances: the queue \<open>[a, b]\<close> against a document with neither target, and the empty
  queue.
\<close>

theorem advance_unresolved_unchanged_witness:
  "doc_empty (elementId stepA) = None
   \<and> doc_empty (elementId stepB) = None
   \<and> goToNextVisibleStep doc_empty (initial [stepA, stepB]) = initial [stepA, stepB]
   \<and> goToNextVisibleStep doc_a_b (initial ([] :: string StepInfoType list)) = initial []"
  using advance_unresolved_unchanged
    [where s = "initial [stepA, stepB]" and getElementById = doc_empty]
    advance_unresolved_unchanged
    [where s = "initial ([] :: string StepInfoType list)" and getElementById = doc_a_b]
  by (simp add: op_defs sample_defs)

text \<open>
  C8. \<open>positionHole\<close> of no element is \<open>INITIAL_HOLE_DIMENSIONS\<close>; of an element it is
  that element's rectangle as the layout reports it at the call, each of top, left,
  height and width printed with the unit \<open>px\<close>. Nothing is cached: what the effect stores
  depends on the layout of the call and the active element only, not on the hole stored
  before, so after a layout change the stored hole is that of the new layout; and two
  layouts that agree on the element give the same hole.
\<close>

theorem positionHole_fresh:
  "positionHole ns layout None = INITIAL_HOLE_DIMENSIONS
   \<and> positionHole ns layout (Some e)
       = \<lparr>hole_top = ns (rect_top (layout e)) @ ''px'',
          hole_left = ns (rect_left (layout e)) @ ''px'',
          hole_height = ns (rect_height (layout e)) @ ''px'',
          hole_width = ns (rect_width (layout e)) @ ''px''\<rparr>
   \<and> holeDims (positionHoleEffect ns layout' (positionHoleEffect ns layout s))
       = positionHole ns layout' (el (currentStep s))
   \<and> (layout e = layout' e \<longrightarrow>
        positionHole ns layout (Some e) = positionHole ns layout' (Some e))"
  by (simp add: positionHole_def positionHoleEffect_def Let_def)

text \<open>
  An instance: element 2 measured under one layout, and the stored hole after the layout
  has changed.
\<close>

theorem positionHole_fresh_witness:
  "positionHole decimal layout1 (Some 2)
     = \<lparr>hole_top = ''20px'', hole_left = ''5px'', hole_height = ''30px'', hole_width = ''120px''\<rparr>
   \<and> holeDims (positionHoleEffect decimal layout2 (positionHoleEffect decimal layout1
        (goToNextVisibleStep doc_only_b (initial [stepA, stepB]))))
     = \<lparr>hole_top = ''84px'', hole_left = ''5px'', hole_height = ''30px'', hole_width = ''96px''\<rparr>
   \<and> layout1 2 = layout1 2"
  using positionHole_fresh
    [where ns = decimal and layout = layout1 and layout' = layout2 and e = 2
       and s = "goToNextVisibleStep doc_only_b (initial [stepA, stepB])"]
    positionHole_fresh
    [where ns = decimal and layout = layout1 and layout' = layout1 and e = 2
       and s = "goToNextVisibleStep doc_only_b (initial [stepA, stepB])"]
  by (simp add: op_defs sample_defs)

text \<open>
  C9. The click handler sets the active step to none, whatever the state; so does the
  key handler on the key \<open>Enter\<close>; on every other key the key handler changes nothing.
  Among all events, the ones that end an active step are exactly the click and the
  \<open>Enter\<close> key press.
\<close>

theorem dismissal_exactly_click_or_enter:
  "currentStep (onClick s) = \<lparr>el = None, tipProps' = None\<rparr>
   \<and> currentStep (onKeyDown ''Enter'' s) = \<lparr>el = None, tipProps' = None\<rparr>
   \<and> (key \<noteq> ''Enter'' \<longrightarrow> onKeyDown key s = s)
   \<and> (el (currentStep s) \<noteq> None \<longrightarrow>
        (el (currentStep (step ns s ev)) = None \<longleftrightarrow> ev = Click \<or> ev = KeyDown ''Enter''))"
proof -
  have "el (currentStep s) \<noteq> None \<longrightarrow>
        (el (currentStep (step ns s ev)) = None \<longleftrightarrow> ev = Click \<or> ev = KeyDown ''Enter'')"
    by (cases ev)
      (auto simp: goToNextVisibleStep_def onClick_def onKeyDown_def positionHoleEffect_def)
  then show ?thesis by (simp add: onClick_def onKeyDown_def)
qed

text \<open>
  An instance: with the step for \<open>b\<close> active, \<open>Escape\<close> changes nothing, a click ends
  the step.
\<close>

theorem dismissal_exactly_click_or_enter_witness:
  "el (currentStep (goToNextVisibleStep doc_only_b (initial [stepA, stepB]))) = Some 2
   \<and> onKeyDown ''Escape'' (goToNextVisibleStep doc_only_b (initial [stepA, stepB]))
       = goToNextVisibleStep doc_only_b (initial [stepA, stepB])
   \<and> el (currentStep (step decimal (goToNextVisibleStep doc_only_b (initial [stepA, stepB]))
        (KeyDown ''Escape''))) = Some 2
   \<and> el (currentStep (step decimal (goToNextVisibleStep doc_only_b (initial [stepA, stepB]))
        Click)) = None"
  using dismissal_exactly_click_or_enter
    [where s = "goToNextVisibleStep doc_only_b (initial [stepA, stepB])" and key = "''Escape''"
       and ns = decimal and ev = "KeyDown ''Escape''"]
    dismissal_exactly_click_or_enter
    [where s = "goToNextVisibleStep doc_only_b (initial [stepA, stepB])" and key = "''Escape''"
       and ns = decimal and ev = Click]
  by (simp add: op_defs sample_defs)

text \<open>
  C10. In the initial state and after every trace from it, an active step without an
  element has no tip either; and whenever the element is none the component returns
  \<open>null\<close>.
\<close>

theorem no_tip_without_element:
  "(el (currentStep (run ns evs (initial steps))) = None \<longrightarrow>
      tipProps' (currentStep (run ns evs (initial steps))) = None)
   \<and> (el (currentStep s) = None \<longrightarrow> TutorialGuide s = None)"
proof -
  have "tip_needs_el (initial steps)"
    by (simp add: tip_needs_el_def initial_def nullStep_def)
  then have "tip_needs_el (run ns evs (initial steps))"
    by (rule run_tip_needs_el)
  then have "el (currentStep (run ns evs (initial steps))) = None \<longrightarrow>
      tipProps' (currentStep (run ns evs (initial steps))) = None"
    by (auto simp: tip_needs_el_def)
  moreover have "el (currentStep s) = None \<longrightarrow> TutorialGuide s = None"
    by (simp add: TutorialGuide_def)
  ultimately show ?thesis by blast
qed

text \<open>
  An instance: \<open>b\<close> promoted, measured and clicked away; the state has neither element
  nor tip and the component returns \<open>null\<close>.
\<close>

theorem no_tip_without_element_witness:
  "el (currentStep (run decimal [Advance doc_only_b, Measure layout1, Click]
       (initial [stepA, stepB]))) = None
   \<and> tipProps' (currentStep (run decimal [Advance doc_only_b, Measure layout1, Click]
       (initial [stepA, stepB]))) = None
   \<and> TutorialGuide (run decimal [Advance doc_only_b, Measure layout1, Click]
       (initial [stepA, stepB])) = None"
  using no_tip_without_element
    [where ns = decimal and evs = "[Advance doc_only_b, Measure layout1, Click]"
       and steps = "[stepA, stepB]"
       and s = "run decimal [Advance doc_only_b, Measure layout1, Click] (initial [stepA, stepB])"]
  by (simp add: op_defs sample_defs)

end
